theory Spec2Isabelle
  imports Main
begin

section \<open>Data model\<close>

text \<open>
  A \<open>datetime\<close> is a point on a discrete time line; all timestamps of one run are
  comparable (all naive or all aware), so \<open>\<le>\<close> on them is total.
\<close>

type_synonym timestamp = int

text \<open>\<open>SitemapEntry\<close>: the url of a page and its last-modified time.\<close>

record sitemap_entry =
  url :: string
  lastmod :: timestamp

text \<open>
  A stored chunk as the vector store returns it: its id and its metadata dict.
  The loader reads the keys \<open>source\<close> and \<open>lastmod\<close> (an ISO-8601 string).
\<close>

record document =
  doc_id :: string
  metadata :: "string \<rightharpoonup> string"

text \<open>One element of \<open>metadata_list\<close>: the dict with keys \<open>id\<close>, \<open>source\<close>, \<open>lastmod\<close>.\<close>

record metadata_row =
  m_id :: string
  m_source :: string
  m_lastmod :: string

text \<open>
  Exceptions of the collaborators (store, loader, dict lookup), and the errors the
  loader graph's nodes end with: the two \<open>raise\<close> statements of the nodes, and an
  exception of a collaborator that no \<open>try\<close> catches.
\<close>

datatype exn = StoreUnavailableError | KeyError string | LoaderError

datatype error = ValueError string | RuntimeError exn | Uncaught exn

text \<open>
  \<open>LoaderConfiguration\<close>: the two fields the nodes read. The nodes receive an optional
  \<open>RunnableConfig\<close>; \<open>None\<close> stands for both values that \<open>not config\<close> accepts
  (\<open>None\<close> and the empty dict), \<open>Some c\<close> for a config whose
  \<open>LoaderConfiguration.from_runnable_config\<close> is \<open>c\<close>.
\<close>

record loader_configuration =
  index_name :: string
  load_documents_batch_size :: int

text \<open>\<open>LoaderState\<close>: the pending queue (optional) and the running chunk counter.\<close>

record loader_state =
  sitemap_entries :: "sitemap_entry list option"
  documents_count :: nat

section \<open>The vector store\<close>

text \<open>
  Modelled from the spec: \<open>VectorStoreManager\<close> and the store behind it are not among
  the sources. The manager holds the index contents (one document per stored chunk, in
  the order the store ranks them for the loader's dummy query), its running counter
  \<open>total_count\<close>, and whether the store can be reached. Every operation fails with
  \<open>StoreUnavailableError\<close> on connectivity loss (spec 4.4).
\<close>

record vector_store_manager =
  stored :: "document list"
  total_count :: nat
  online :: bool

text \<open>
  Modelled from the spec: \<open>similarity_search(query, k)\<close> returns the \<open>k\<close> nearest
  stored documents with their metadata.
\<close>

definition similarity_search :: "vector_store_manager \<Rightarrow> nat \<Rightarrow> exn + document list" where
  "similarity_search vsm k =
     (if online vsm then Inr (take k (stored vsm)) else Inl StoreUnavailableError)"

text \<open>
  Modelled from the spec: \<open>delete(ids)\<close> removes the documents with these ids; an
  absent id is not an error; the running counter is only changed by a batch commit.
\<close>

definition delete_by_ids :: "vector_store_manager \<Rightarrow> string list \<Rightarrow> exn + vector_store_manager" where
  "delete_by_ids vsm ids =
     (if online vsm
      then Inr (vsm\<lparr>stored := filter (\<lambda>d. doc_id d \<notin> set ids) (stored vsm)\<rparr>)
      else Inl StoreUnavailableError)"

text \<open>Modelled from the spec: \<open>add(chunks)\<close> persists the chunks with their metadata.\<close>

definition add_documents :: "vector_store_manager \<Rightarrow> document list \<Rightarrow> exn + vector_store_manager" where
  "add_documents vsm documents =
     (if online vsm
      then Inr (vsm\<lparr>stored := stored vsm @ documents\<rparr>)
      else Inl StoreUnavailableError)"

section \<open>Node 2: \<open>filter_sitemap_entries\<close>\<close>

text \<open>
  The body of the \<open>try\<close>: the search and the list comprehension that reads
  \<open>doc.metadata['source']\<close> and \<open>doc.metadata['lastmod']\<close>. A missing key raises
  \<open>KeyError\<close> inside the \<open>try\<close>.
\<close>

definition metadata_of :: "document \<Rightarrow> exn + metadata_row" where
  "metadata_of doc =
     (case metadata doc ''source'' of
        None \<Rightarrow> Inl (KeyError ''source'')
      | Some src \<Rightarrow>
          (case metadata doc ''lastmod'' of
             None \<Rightarrow> Inl (KeyError ''lastmod'')
           | Some lm \<Rightarrow> Inr \<lparr>m_id = doc_id doc, m_source = src, m_lastmod = lm\<rparr>))"

fun metadata_rows :: "document list \<Rightarrow> exn + metadata_row list" where
  "metadata_rows [] = Inr []"
| "metadata_rows (doc # results) =
     (case metadata_of doc of
        Inl e \<Rightarrow> Inl e
      | Inr m \<Rightarrow>
          (case metadata_rows results of
             Inl e \<Rightarrow> Inl e
           | Inr ms \<Rightarrow> Inr (m # ms)))"

definition fetch_metadata :: "vector_store_manager \<Rightarrow> exn + metadata_row list" where
  "fetch_metadata vsm =
     (let k = (if total_count vsm = 0 then 1 else total_count vsm) in
      case similarity_search vsm k of
        Inl e \<Rightarrow> Inl e
      | Inr results \<Rightarrow> metadata_rows results)"

text \<open>
  The set comprehension \<open>db_entries\<close>: each row's \<open>(source, fromisoformat(lastmod))\<close>.
  \<open>datetime.fromisoformat\<close> is a parameter; \<open>None\<close> is its \<open>ValueError\<close>, which no
  \<open>try\<close> catches here.
\<close>

fun parse_rows :: "(string \<Rightarrow> timestamp option) \<Rightarrow> metadata_row list \<Rightarrow> (string \<times> timestamp) list option" where
  "parse_rows fromisoformat [] = Some []"
| "parse_rows fromisoformat (m # ms) =
     (case fromisoformat (m_lastmod m) of
        None \<Rightarrow> None
      | Some t \<Rightarrow>
          (case parse_rows fromisoformat ms of
             None \<Rightarrow> None
           | Some ps \<Rightarrow> Some ((m_source m, t) # ps)))"

text \<open>
  \<open>db_entries\<close> is a Python set, iterated by the inner loop. Its iteration order is
  fixed for one run but not by the program (it follows the hashes): the model takes the
  position key \<open>set_order\<close> as a parameter and iterates the distinct pairs by
  ascending key. Every enumeration of the set is the one of some key.
\<close>

definition db_entries :: "(string \<times> timestamp \<Rightarrow> nat) \<Rightarrow> (string \<times> timestamp) list \<Rightarrow> (string \<times> timestamp) list" where
  "db_entries set_order pairs = sort_key set_order (remdups pairs)"

text \<open>
  The inner loop: the first pair of \<open>db_entries\<close> with the entry's url decides, then
  \<open>break\<close>. 0: new, 1: exists (no update), 2: exists but updated.
\<close>

fun vector_flag :: "sitemap_entry \<Rightarrow> (string \<times> timestamp) list \<Rightarrow> nat" where
  "vector_flag entry [] = 0"
| "vector_flag entry ((db_url, db_lastmod) # rest) =
     (if url entry = db_url
      then (if lastmod entry \<le> db_lastmod then 1 else 2)
      else vector_flag entry rest)"

text \<open>
  One pass of the outer loop's body over the accumulators \<open>new_entries\<close> and
  \<open>delete_ids\<close>.
\<close>

definition reconcile_entry ::
  "metadata_row list \<Rightarrow> (string \<times> timestamp) list \<Rightarrow>
   sitemap_entry list \<times> string list \<Rightarrow> sitemap_entry \<Rightarrow> sitemap_entry list \<times> string list" where
  "reconcile_entry metadata_list dbs acc entry =
     (let flag = vector_flag entry dbs;
          new_entries = fst acc;
          delete_ids = snd acc
      in if flag = 0 then (new_entries @ [entry], delete_ids)
         else if flag = 1 then (new_entries, delete_ids)
         else if flag = 2 then
           (new_entries @ [entry],
            delete_ids @ map m_id (filter (\<lambda>m. m_source m = url entry) metadata_list))
         else (new_entries, delete_ids))"

text \<open>The outer loop: \<open>to_index\<close> is its first component, \<open>to_delete\<close> its second.\<close>

definition reconcile ::
  "metadata_row list \<Rightarrow> (string \<times> timestamp) list \<Rightarrow> sitemap_entry list \<Rightarrow>
   sitemap_entry list \<times> string list" where
  "reconcile metadata_list dbs entries =
     foldl (reconcile_entry metadata_list dbs) ([], []) entries"

text \<open>
  The node. Its result is the outcome (an error, or the state updated with the returned
  dict) together with the manager after the call, so that what a failing call did to the
  store is part of the model.
\<close>

definition filter_sitemap_entries ::
  "(string \<Rightarrow> timestamp option) \<Rightarrow> (string \<times> timestamp \<Rightarrow> nat) \<Rightarrow>
   loader_configuration option \<Rightarrow> loader_state \<Rightarrow> vector_store_manager \<Rightarrow>
   (error + loader_state) \<times> vector_store_manager" where
  "filter_sitemap_entries fromisoformat set_order config state vsm =
     (case sitemap_entries state of
        None \<Rightarrow> (Inl (ValueError ''No sitemap entries found in state.''), vsm)
      | Some entries \<Rightarrow>
     (case config of
        None \<Rightarrow> (Inl (ValueError ''Configuration required to run <filter_sitemap_entries>.''), vsm)
      | Some configuration \<Rightarrow>
     (case fetch_metadata vsm of
        Inl e \<Rightarrow> (Inl (RuntimeError e), vsm)
      | Inr metadata_list \<Rightarrow>
     (case parse_rows fromisoformat metadata_list of
        None \<Rightarrow> (Inl (ValueError ''Invalid isoformat string''), vsm)
      | Some pairs \<Rightarrow>
          (let out = reconcile metadata_list (db_entries set_order pairs) entries in
           case delete_by_ids vsm (snd out) of
             Inl e \<Rightarrow> (Inl (Uncaught e), vsm)
           | Inr vsm' \<Rightarrow> (Inr (state\<lparr>sitemap_entries := Some (fst out)\<rparr>), vsm'))))))"

section \<open>Node 3: \<open>create_documents\<close>, and the batch loop\<close>

text \<open>Python's slices \<open>xs[:n]\<close> and \<open>xs[n:]\<close>; a negative \<open>n\<close> counts from the end.\<close>

definition slice_to :: "'a list \<Rightarrow> int \<Rightarrow> 'a list" where
  "slice_to xs n =
     (if 0 \<le> n then take (nat n) xs else take (length xs - nat (- n)) xs)"

definition slice_from :: "'a list \<Rightarrow> int \<Rightarrow> 'a list" where
  "slice_from xs n =
     (if 0 \<le> n then drop (nat n) xs else drop (length xs - nat (- n)) xs)"

text \<open>
  The node. \<open>load_split\<close> is the collaborators' part, a parameter: the HTML loader on
  the batch followed by the text splitter, giving the chunks or raising. The result is
  the outcome, the manager after the call, and the batch handed to the loader when the
  call got that far.
\<close>

definition create_documents ::
  "(sitemap_entry list \<Rightarrow> exn + document list) \<Rightarrow> loader_configuration option \<Rightarrow>
   loader_state \<Rightarrow> vector_store_manager \<Rightarrow>
   (error + loader_state) \<times> vector_store_manager \<times> sitemap_entry list option" where
  "create_documents load_split config state vsm =
     (case config of
        None \<Rightarrow> (Inl (ValueError ''Configuration required to run <filter_sitemap_entries>.''), vsm, None)
      | Some configuration \<Rightarrow>
          (let batch_size = load_documents_batch_size configuration in
           case sitemap_entries state of
             None \<Rightarrow> (Inr (state\<lparr>documents_count := 0\<rparr>), vsm, None)
           | Some [] \<Rightarrow> (Inr (state\<lparr>documents_count := 0\<rparr>), vsm, None)
           | Some (entry # entries) \<Rightarrow>
               (let batch = slice_to (entry # entries) batch_size in
                case load_split batch of
                  Inl e \<Rightarrow> (Inl (Uncaught e), vsm, Some batch)
                | Inr processed_documents \<Rightarrow>
                    (case add_documents vsm processed_documents of
                       Inl e \<Rightarrow> (Inl (Uncaught e), vsm, Some batch)
                     | Inr vsm' \<Rightarrow>
                         (Inr (state\<lparr>documents_count :=
                                       documents_count state + length processed_documents,
                                     sitemap_entries :=
                                       Some (slice_from (entry # entries) batch_size)\<rparr>),
                          vsm'\<lparr>total_count := total_count vsm' + length processed_documents\<rparr>,
                          Some batch)))))"

text \<open>The conditional edge: the name of the next node.\<close>

definition check_next_batch :: "loader_state \<Rightarrow> string" where
  "check_next_batch state =
     (case sitemap_entries state of
        None \<Rightarrow> ''__end__''
      | Some [] \<Rightarrow> ''__end__''
      | Some (entry # entries) \<Rightarrow> ''create_documents'')"

text \<open>
  The cycle \<open>create_documents\<close> \<open>\<rightarrow>\<close> \<open>check_next_batch\<close> of the compiled graph, with
  fuel: \<open>None\<close> is a run that has not ended within \<open>fuel\<close> calls of the node. The
  last component logs the batches handed to the loader, in order.
\<close>

fun batch_loop ::
  "nat \<Rightarrow> (sitemap_entry list \<Rightarrow> exn + document list) \<Rightarrow> loader_configuration option \<Rightarrow>
   loader_state \<Rightarrow> vector_store_manager \<Rightarrow> sitemap_entry list list \<Rightarrow>
   ((error + loader_state) \<times> vector_store_manager \<times> sitemap_entry list list) option" where
  "batch_loop 0 load_split config state vsm batches = None"
| "batch_loop (Suc fuel) load_split config state vsm batches =
     (case create_documents load_split config state vsm of
        (Inl e, vsm', loaded) \<Rightarrow> Some (Inl e, vsm', batches @ (case loaded of None \<Rightarrow> [] | Some b \<Rightarrow> [b]))
      | (Inr state', vsm', loaded) \<Rightarrow>
          (let batches' = batches @ (case loaded of None \<Rightarrow> [] | Some b \<Rightarrow> [b]) in
           if check_next_batch state' = ''__end__''
           then Some (Inr state', vsm', batches')
           else batch_loop fuel load_split config state' vsm' batches'))"


text \<open>
  The batches as the spec describes them, to compare the loop's log with: the queue cut
  into runs of \<open>B\<close> entries from the front, the last run possibly shorter.
\<close>

function fifo_batches :: "nat \<Rightarrow> 'a list \<Rightarrow> 'a list list" where
  "fifo_batches B q =
     (if q = [] \<or> B = 0 then [] else take B q # fifo_batches B (drop B q))"
  by pat_completeness auto
termination
  by (relation "measure (\<lambda>(B, q). length q)") auto

section \<open>The Slack message builder\<close>

text \<open>
  A Block Kit block: \<open>Section t\<close> is the section dict whose mrkdwn text is \<open>t\<close>,
  \<open>Divider\<close> the divider dict. A result is a dict from field names to texts.
\<close>

datatype block = Section string | Divider

definition newline :: string where
  "newline = [CHR 0x0A]"

definition bullet :: string where
  "bullet = [CHR 0xE2, CHR 0x80, CHR 0xA2]"

definition dict_get :: "(string \<rightharpoonup> string) \<Rightarrow> string \<Rightarrow> string \<Rightarrow> string" where
  "dict_get d k dflt = (case d k of None \<Rightarrow> dflt | Some v \<Rightarrow> v)"

definition result_text :: "(string \<rightharpoonup> string) \<Rightarrow> string" where
  "result_text result =
     (let url = dict_get result ''url'' ''URL not available'';
          summary = dict_get result ''summary'' ''Summary not available'';
          response = dict_get result ''response'' ''Response not available''
      in url @ newline @ newline
         @ bullet @ '' *Summary:* '' @ summary @ newline @ newline
         @ bullet @ '' *Hint:* '' @ response)"

text \<open>The loop over \<open>results[:20]\<close>, appending two blocks per result.\<close>

fun append_results :: "block list \<Rightarrow> (string \<rightharpoonup> string) list \<Rightarrow> block list" where
  "append_results blocks [] = blocks"
| "append_results blocks (result # results) =
     append_results (blocks @ [Section (result_text result), Divider]) results"

definition build_slack_message_blocks :: "(string \<rightharpoonup> string) list \<Rightarrow> block list" where
  "build_slack_message_blocks results =
     append_results [Section ''*Analysis Results:*'', Divider] (slice_to results 20)"

section \<open>Sample values\<close>

text \<open>
  A reading of two ISO dates as day numbers, for the examples that need a concrete
  \<open>datetime.fromisoformat\<close>; every other string is malformed.
\<close>

definition iso_days :: "string \<Rightarrow> timestamp option" where
  "iso_days s =
     (if s = ''2024-01-01'' then Some 19723
      else if s = ''2024-02-01'' then Some 19754
      else None)"

text \<open>The stored chunk with the given id, source url and ISO date.\<close>

definition chunk :: "string \<Rightarrow> string \<Rightarrow> string \<Rightarrow> document" where
  "chunk i src lm = \<lparr>doc_id = i, metadata = [''source'' \<mapsto> src, ''lastmod'' \<mapsto> lm]\<rparr>"



section \<open>Reconciliation: classification of one entry\<close>

lemma vector_flag_range: "vector_flag entry dbs \<le> 2"
  by (induction dbs) (auto split: prod.splits)

lemma reconcile_entry_step:
  "reconcile_entry ms dbs (ns, ds) e =
     (ns @ (if vector_flag e dbs \<noteq> 1 then [e] else []),
      ds @ (if vector_flag e dbs = 2
            then map m_id (filter (\<lambda>m. m_source m = url e) ms) else []))"
proof -
  have "vector_flag e dbs = 0 \<or> vector_flag e dbs = 1 \<or> vector_flag e dbs = 2"
    using vector_flag_range [of e dbs] by arith
  then show ?thesis
    by (auto simp: reconcile_entry_def)
qed

lemma foldl_reconcile_entry:
  "foldl (reconcile_entry ms dbs) (ns, ds) es =
     (ns @ filter (\<lambda>e. vector_flag e dbs \<noteq> 1) es,
      ds @ concat (map (\<lambda>e. if vector_flag e dbs = 2
                              then map m_id (filter (\<lambda>m. m_source m = url e) ms) else []) es))"
proof (induction es arbitrary: ns ds)
  case Nil
  show ?case by simp
next
  case (Cons e es)
  show ?case
    by (simp only: foldl_Cons reconcile_entry_step Cons.IH) simp
qed

lemma reconcile_eq:
  "reconcile ms dbs es =
     (filter (\<lambda>e. vector_flag e dbs \<noteq> 1) es,
      concat (map (\<lambda>e. if vector_flag e dbs = 2
                         then map m_id (filter (\<lambda>m. m_source m = url e) ms) else []) es))"
  by (simp add: reconcile_def foldl_reconcile_entry)

lemma set_db_entries: "set (db_entries set_order pairs) = set pairs"
  by (simp add: db_entries_def)

lemma vector_flag_0_iff: "vector_flag e dbs = 0 \<longleftrightarrow> url e \<notin> fst ` set dbs"
proof (induction dbs)
  case Nil
  show ?case by simp
next
  case (Cons p dbs)
  obtain u t where p: "p = (u, t)" by (cases p)
  show ?case
    using Cons.IH by (cases "url e = u") (simp_all add: p)
qed


lemma vector_flag_2D:
  "vector_flag e dbs = 2 \<Longrightarrow> \<exists>t. (url e, t) \<in> set dbs \<and> t < lastmod e"
proof (induction dbs)
  case Nil
  then show ?case by simp
next
  case (Cons p dbs)
  obtain u t where p: "p = (u, t)" by (cases p)
  show ?case
  proof (cases "url e = u")
    case True
    with Cons.prems p have "t < lastmod e" by (simp split: if_splits)
    with True p show ?thesis by auto
  next
    case False
    with Cons p show ?thesis by auto
  qed
qed

lemma vector_flag_all_le:
  "(url e, t0) \<in> set dbs \<Longrightarrow> \<forall>t. (url e, t) \<in> set dbs \<longrightarrow> lastmod e \<le> t \<Longrightarrow> vector_flag e dbs = 1"
  by (induction dbs) (auto split: if_splits)

lemma vector_flag_all_gt:
  "(url e, t0) \<in> set dbs \<Longrightarrow> \<forall>t. (url e, t) \<in> set dbs \<longrightarrow> t < lastmod e \<Longrightarrow> vector_flag e dbs = 2"
  by (induction dbs) (auto split: if_splits)

lemma set_parse_rows:
  "parse_rows f ms = Some ps \<Longrightarrow>
     set ps = {(m_source m, t) | m t. m \<in> set ms \<and> f (m_lastmod m) = Some t}"
proof (induction ms arbitrary: ps)
  case Nil
  then show ?case by simp
next
  case (Cons m ms)
  then show ?case
    by (auto split: option.splits)
qed

lemma parse_rows_all:
  "parse_rows f ms = Some ps \<Longrightarrow> m \<in> set ms \<Longrightarrow> \<exists>t. f (m_lastmod m) = Some t"
  by (induction ms arbitrary: ps) (auto split: option.splits)


lemma metadata_of_Inr_iff:
  "metadata_of d = Inr m \<longleftrightarrow>
     metadata d ''source'' = Some (m_source m) \<and> metadata d ''lastmod'' = Some (m_lastmod m)
     \<and> m_id m = doc_id d"
  by (cases m) (auto simp: metadata_of_def split: option.splits)

lemma metadata_rows_Inr:
  "metadata_rows docs = Inr ms \<Longrightarrow> list_all2 (\<lambda>d m. metadata_of d = Inr m) docs ms"
  by (induction docs arbitrary: ms) (auto split: sum.splits)

lemma fetch_metadata_Inr:
  assumes "fetch_metadata vsm = Inr ms"
  shows "online vsm"
    and "list_all2 (\<lambda>d m. metadata_of d = Inr m)
           (take (if total_count vsm = 0 then 1 else total_count vsm) (stored vsm)) ms"
  using assms
  by (auto simp: fetch_metadata_def similarity_search_def Let_def
           split: if_splits sum.splits dest: metadata_rows_Inr)

lemma list_all2_rightD:
  "list_all2 P xs ys \<Longrightarrow> y \<in> set ys \<Longrightarrow> \<exists>x\<in>set xs. P x y"
  by (induction rule: list_all2_induct) auto


lemma fetch_metadata_row_doc:
  assumes "fetch_metadata vsm = Inr ms" and "m \<in> set ms"
  shows "\<exists>d\<in>set (stored vsm). metadata_of d = Inr m"
proof -
  from fetch_metadata_Inr(2) [OF assms(1)] assms(2)
  obtain d where "d \<in> set (take (if total_count vsm = 0 then 1 else total_count vsm) (stored vsm))"
    and "metadata_of d = Inr m"
    by (blast dest: list_all2_rightD)
  then show ?thesis
    by (meson in_set_takeD)
qed

lemma filter_sitemap_entries_InrD:
  assumes "filter_sitemap_entries fromisoformat set_order config state vsm = (Inr state', vsm')"
  shows "\<exists>entries ms pairs.
           sitemap_entries state = Some entries \<and> config \<noteq> None
           \<and> fetch_metadata vsm = Inr ms \<and> parse_rows fromisoformat ms = Some pairs
           \<and> delete_by_ids vsm (snd (reconcile ms (db_entries set_order pairs) entries)) = Inr vsm'
           \<and> state' = state\<lparr>sitemap_entries :=
                               Some (fst (reconcile ms (db_entries set_order pairs) entries))\<rparr>"
  using assms
  by (auto simp: filter_sitemap_entries_def Let_def split: option.splits sum.splits)

lemma filter_sitemap_entries_Inr:
  assumes "sitemap_entries state = Some entries"
    and "fetch_metadata vsm = Inr ms"
    and "parse_rows fromisoformat ms = Some pairs"
    and "reconcile ms (db_entries set_order pairs) entries = (to_index, to_delete)"
  shows "filter_sitemap_entries fromisoformat set_order (Some configuration) state vsm =
           (Inr (state\<lparr>sitemap_entries := Some to_index\<rparr>),
            vsm\<lparr>stored := filter (\<lambda>d. doc_id d \<notin> set to_delete) (stored vsm)\<rparr>)"
proof -
  from assms(2) have "online vsm"
    by (rule fetch_metadata_Inr(1))
  with assms show ?thesis
    by (simp add: filter_sitemap_entries_def delete_by_ids_def)
qed

lemma no_row_flag_0:
  assumes "parse_rows fromisoformat ms = Some pairs"
    and "\<forall>m\<in>set ms. m_source m \<noteq> url entry"
  shows "vector_flag entry (db_entries set_order pairs) = 0"
  using assms
  by (auto simp: vector_flag_0_iff set_db_entries set_parse_rows)

section \<open>C1: entries without an indexed record\<close>

text \<open>
  C1. A sitemap entry whose url no fetched record has as its source is classified new
  (flag 0): the loop body appends it to \<open>new_entries\<close> (\<open>to_index\<close>) and leaves
  \<open>delete_ids\<close> (\<open>to_delete\<close>) as it is, so the entry is in the \<open>to_index\<close> of the
  whole loop; at the node, an entry whose url no stored document has as its source is in
  the returned \<open>sitemap_entries\<close>. On an empty index the sitemap \<open>[a]\<close> gives
  \<open>to_index = [a]\<close> and \<open>to_delete = []\<close>, and the node returns \<open>[a]\<close> and leaves the
  store empty.
\<close>

theorem new_entry_is_indexed:
  "(parse_rows fromisoformat metadata_list = Some pairs
      \<and> (\<forall>m\<in>set metadata_list. m_source m \<noteq> url entry) \<longrightarrow>
      vector_flag entry (db_entries set_order pairs) = 0
      \<and> reconcile_entry metadata_list (db_entries set_order pairs) (new_entries, delete_ids) entry
          = (new_entries @ [entry], delete_ids)
      \<and> (entry \<in> set entries \<longrightarrow>
           entry \<in> set (fst (reconcile metadata_list (db_entries set_order pairs) entries))))
   \<and> (filter_sitemap_entries fromisoformat set_order config state vsm = (Inr state', vsm')
      \<and> sitemap_entries state = Some entries \<and> entry \<in> set entries
      \<and> (\<forall>d\<in>set (stored vsm). metadata d ''source'' \<noteq> Some (url entry)) \<longrightarrow>
      (\<exists>to_index. sitemap_entries state' = Some to_index \<and> entry \<in> set to_index))
   \<and> reconcile [] (db_entries set_order []) [\<lparr>url = ''a'', lastmod = t\<rparr>]
        = ([\<lparr>url = ''a'', lastmod = t\<rparr>], [])
   \<and> filter_sitemap_entries fromisoformat set_order (Some configuration)
        \<lparr>sitemap_entries = Some [\<lparr>url = ''a'', lastmod = t\<rparr>], documents_count = n\<rparr>
        \<lparr>stored = [], total_count = 0, online = True\<rparr>
        = (Inr \<lparr>sitemap_entries = Some [\<lparr>url = ''a'', lastmod = t\<rparr>], documents_count = n\<rparr>,
           \<lparr>stored = [], total_count = 0, online = True\<rparr>)"
proof (intro conjI impI)
  assume h: "parse_rows fromisoformat metadata_list = Some pairs
      \<and> (\<forall>m\<in>set metadata_list. m_source m \<noteq> url entry)"
  then show f0: "vector_flag entry (db_entries set_order pairs) = 0"
    by (blast intro: no_row_flag_0)
  then show "reconcile_entry metadata_list (db_entries set_order pairs) (new_entries, delete_ids) entry
          = (new_entries @ [entry], delete_ids)"
    by (simp add: reconcile_entry_step)
  assume "entry \<in> set entries"
  with f0 show "entry \<in> set (fst (reconcile metadata_list (db_entries set_order pairs) entries))"
    by (simp add: reconcile_eq)
next
  assume h: "filter_sitemap_entries fromisoformat set_order config state vsm = (Inr state', vsm')
      \<and> sitemap_entries state = Some entries \<and> entry \<in> set entries
      \<and> (\<forall>d\<in>set (stored vsm). metadata d ''source'' \<noteq> Some (url entry))"
  from filter_sitemap_entries_InrD [of fromisoformat set_order config state vsm state' vsm'] h
  obtain ms pairs where ms: "fetch_metadata vsm = Inr ms"
    and ps: "parse_rows fromisoformat ms = Some pairs"
    and st: "state' = state\<lparr>sitemap_entries :=
                               Some (fst (reconcile ms (db_entries set_order pairs) entries))\<rparr>"
    by auto
  have "\<forall>m\<in>set ms. m_source m \<noteq> url entry"
  proof
    fix m assume "m \<in> set ms"
    from fetch_metadata_row_doc [OF ms this]
    obtain d where "d \<in> set (stored vsm)" and "metadata_of d = Inr m" by blast
    with h show "m_source m \<noteq> url entry"
      by (auto simp: metadata_of_Inr_iff)
  qed
  with ps have "vector_flag entry (db_entries set_order pairs) = 0"
    by (blast intro: no_row_flag_0)
  with h have "entry \<in> set (fst (reconcile ms (db_entries set_order pairs) entries))"
    by (simp add: reconcile_eq)
  with st show "\<exists>to_index. sitemap_entries state' = Some to_index \<and> entry \<in> set to_index"
    by simp
next
  show "reconcile [] (db_entries set_order []) [\<lparr>url = ''a'', lastmod = t\<rparr>]
        = ([\<lparr>url = ''a'', lastmod = t\<rparr>], [])"
    by (simp add: reconcile_eq db_entries_def)
next
  show "filter_sitemap_entries fromisoformat set_order (Some configuration)
        \<lparr>sitemap_entries = Some [\<lparr>url = ''a'', lastmod = t\<rparr>], documents_count = n\<rparr>
        \<lparr>stored = [], total_count = 0, online = True\<rparr>
        = (Inr \<lparr>sitemap_entries = Some [\<lparr>url = ''a'', lastmod = t\<rparr>], documents_count = n\<rparr>,
           \<lparr>stored = [], total_count = 0, online = True\<rparr>)"
    by (simp add: filter_sitemap_entries_def fetch_metadata_def similarity_search_def
          delete_by_ids_def reconcile_eq db_entries_def)
qed


theorem new_entry_is_indexed_witness:
  "vector_flag \<lparr>url = ''a'', lastmod = 19723\<rparr> (db_entries (\<lambda>p. 0) [(''b'', 19723)]) = 0
   \<and> reconcile_entry [\<lparr>m_id = ''x'', m_source = ''b'', m_lastmod = ''2024-01-01''\<rparr>]
         (db_entries (\<lambda>p. 0) [(''b'', 19723)]) ([], []) \<lparr>url = ''a'', lastmod = 19723\<rparr>
       = ([\<lparr>url = ''a'', lastmod = 19723\<rparr>], [])
   \<and> \<lparr>url = ''a'', lastmod = 19723\<rparr>
       \<in> set (fst (reconcile [\<lparr>m_id = ''x'', m_source = ''b'', m_lastmod = ''2024-01-01''\<rparr>]
                     (db_entries (\<lambda>p. 0) [(''b'', 19723)]) [\<lparr>url = ''a'', lastmod = 19723\<rparr>]))
   \<and> filter_sitemap_entries iso_days (\<lambda>p. 0) (Some \<lparr>index_name = ''default'', load_documents_batch_size = 2\<rparr>)
         \<lparr>sitemap_entries = Some [\<lparr>url = ''a'', lastmod = 19723\<rparr>], documents_count = 0\<rparr>
         \<lparr>stored = [chunk ''x'' ''b'' ''2024-01-01''], total_count = 1, online = True\<rparr>
       = (Inr \<lparr>sitemap_entries = Some [\<lparr>url = ''a'', lastmod = 19723\<rparr>], documents_count = 0\<rparr>,
          \<lparr>stored = [chunk ''x'' ''b'' ''2024-01-01''], total_count = 1, online = True\<rparr>)"
proof -
  let ?row = "\<lparr>m_id = ''x'', m_source = ''b'', m_lastmod = ''2024-01-01''\<rparr>"
  let ?a = "\<lparr>url = ''a'', lastmod = 19723\<rparr>"
  let ?state = "\<lparr>sitemap_entries = Some [?a], documents_count = 0\<rparr>"
  let ?vsm = "\<lparr>stored = [chunk ''x'' ''b'' ''2024-01-01''], total_count = 1, online = True\<rparr>"
  have parse: "parse_rows iso_days [?row] = Some [(''b'', 19723)]"
    by (simp add: iso_days_def)
  have rows: "\<forall>m\<in>set [?row]. m_source m \<noteq> url ?a"
    by simp
  have fetch: "fetch_metadata ?vsm = Inr [?row]"
    by (simp add: fetch_metadata_def similarity_search_def metadata_of_def chunk_def)
  have node: "filter_sitemap_entries iso_days (\<lambda>p. 0)
                (Some \<lparr>index_name = ''default'', load_documents_batch_size = 2\<rparr>) ?state ?vsm
              = (Inr ?state, ?vsm)"
    using filter_sitemap_entries_Inr [OF _ fetch parse, of ?state "[?a]" "\<lambda>p. 0" "[?a]" "[]"]
    by (simp add: reconcile_eq db_entries_def)
  have docs: "\<forall>d\<in>set (stored ?vsm). metadata d ''source'' \<noteq> Some (url ?a)"
    by (simp add: chunk_def)
  from new_entry_is_indexed [where fromisoformat = iso_days and metadata_list = "[?row]"
      and pairs = "[(''b'', 19723)]" and entry = ?a and set_order = "\<lambda>p. 0"
      and new_entries = "[]" and delete_ids = "[]" and entries = "[?a]"
      and config = "Some \<lparr>index_name = ''default'', load_documents_batch_size = 2\<rparr>"
      and state = ?state and vsm = ?vsm and state' = ?state and vsm' = ?vsm]
    parse rows node docs
  show ?thesis
    by simp
qed

lemma stale_ids_in_to_delete:
  assumes "vector_flag e dbs = 2" and "e \<in> set es" and "m \<in> set ms" and "m_source m = url e"
  shows "m_id m \<in> set (snd (reconcile ms dbs es))"
proof -
  let ?ids = "\<lambda>e. if vector_flag e dbs = 2
                  then map m_id (filter (\<lambda>m. m_source m = url e) ms) else []"
  from assms(1,3,4) have "m_id m \<in> set (?ids e)"
    by simp
  with assms(2) have "m_id m \<in> set (concat (map ?ids es))"
    unfolding set_concat by (intro UN_I [of "?ids e"]) simp_all
  then show ?thesis
    by (simp only: reconcile_eq snd_conv)
qed

lemma db_entries_of_url:
  assumes "parse_rows fromisoformat ms = Some pairs"
  shows "(u, t) \<in> set (db_entries set_order pairs) \<longleftrightarrow>
           (\<exists>m\<in>set ms. m_source m = u \<and> fromisoformat (m_lastmod m) = Some t)"
  using set_parse_rows [OF assms] by (auto simp: set_db_entries)

section \<open>C2: entries with an indexed record\<close>

text \<open>
  C2, as stated, fails when the fetched records of one url carry different lastmod
  values: the first pair of that url which the iteration of the set \<open>db_entries\<close>
  yields decides alone. Here the records \<open>x\<close> (2024-01-01) and \<open>y\<close> (2024-02-01)
  share the url of an entry dated 2024-02-01, and the iteration yields \<open>y\<close>'s pair
  first: the entry is newer than the record \<open>x\<close>, yet it is classified unchanged,
  it is not in \<open>to_index\<close> and the id of \<open>x\<close> is not in \<open>to_delete\<close>; the node
  returns no entry and leaves both records in the store.
\<close>

theorem existing_entry_first_pair_decides_counterexample:
  "parse_rows iso_days
     [\<lparr>m_id = ''x'', m_source = ''a'', m_lastmod = ''2024-01-01''\<rparr>,
      \<lparr>m_id = ''y'', m_source = ''a'', m_lastmod = ''2024-02-01''\<rparr>]
     = Some [(''a'', 19723), (''a'', 19754)]
   \<and> iso_days ''2024-01-01'' = Some 19723
   \<and> 19723 < lastmod \<lparr>url = ''a'', lastmod = 19754\<rparr>
   \<and> vector_flag \<lparr>url = ''a'', lastmod = 19754\<rparr>
         (db_entries (\<lambda>p. if snd p = 19754 then 0 else 1) [(''a'', 19723), (''a'', 19754)]) = 1
   \<and> reconcile
         [\<lparr>m_id = ''x'', m_source = ''a'', m_lastmod = ''2024-01-01''\<rparr>,
          \<lparr>m_id = ''y'', m_source = ''a'', m_lastmod = ''2024-02-01''\<rparr>]
         (db_entries (\<lambda>p. if snd p = 19754 then 0 else 1) [(''a'', 19723), (''a'', 19754)])
         [\<lparr>url = ''a'', lastmod = 19754\<rparr>]
       = ([], [])
   \<and> filter_sitemap_entries iso_days (\<lambda>p. if snd p = 19754 then 0 else 1)
         (Some \<lparr>index_name = ''default'', load_documents_batch_size = 2\<rparr>)
         \<lparr>sitemap_entries = Some [\<lparr>url = ''a'', lastmod = 19754\<rparr>], documents_count = 0\<rparr>
         \<lparr>stored = [chunk ''x'' ''a'' ''2024-01-01'', chunk ''y'' ''a'' ''2024-02-01''],
          total_count = 2, online = True\<rparr>
       = (Inr \<lparr>sitemap_entries = Some [], documents_count = 0\<rparr>,
          \<lparr>stored = [chunk ''x'' ''a'' ''2024-01-01'', chunk ''y'' ''a'' ''2024-02-01''],
           total_count = 2, online = True\<rparr>)"
proof -
  let ?x = "\<lparr>m_id = ''x'', m_source = ''a'', m_lastmod = ''2024-01-01''\<rparr>"
  let ?y = "\<lparr>m_id = ''y'', m_source = ''a'', m_lastmod = ''2024-02-01''\<rparr>"
  let ?e = "\<lparr>url = ''a'', lastmod = 19754\<rparr>"
  let ?order = "\<lambda>p::string \<times> timestamp. if snd p = 19754 then 0 else (1::nat)"
  let ?vsm = "\<lparr>stored = [chunk ''x'' ''a'' ''2024-01-01'', chunk ''y'' ''a'' ''2024-02-01''],
          total_count = 2, online = True\<rparr>"
  have parse: "parse_rows iso_days [?x, ?y] = Some [(''a'', 19723), (''a'', 19754)]"
    by (simp add: iso_days_def)
  have iso: "iso_days ''2024-01-01'' = Some 19723"
    by (simp add: iso_days_def)
  have dbs: "db_entries ?order [(''a'', 19723), (''a'', 19754)] = [(''a'', 19754), (''a'', 19723)]"
    by (simp add: db_entries_def)
  have flag: "vector_flag ?e (db_entries ?order [(''a'', 19723), (''a'', 19754)]) = 1"
    unfolding dbs by simp
  have rec: "reconcile [?x, ?y] (db_entries ?order [(''a'', 19723), (''a'', 19754)]) [?e] = ([], [])"
    using flag by (simp add: reconcile_eq)
  have fetch: "fetch_metadata ?vsm = Inr [?x, ?y]"
    by (simp add: fetch_metadata_def similarity_search_def metadata_of_def chunk_def)
  have node: "filter_sitemap_entries iso_days ?order
         (Some \<lparr>index_name = ''default'', load_documents_batch_size = 2\<rparr>)
         \<lparr>sitemap_entries = Some [?e], documents_count = 0\<rparr> ?vsm
       = (Inr \<lparr>sitemap_entries = Some [], documents_count = 0\<rparr>, ?vsm)"
    using filter_sitemap_entries_Inr [OF _ fetch parse rec,
        of "\<lparr>sitemap_entries = Some [?e], documents_count = 0\<rparr>"]
    by simp
  have "19723 < lastmod ?e" by simp
  with parse iso flag rec node show ?thesis
    by (intro conjI)
qed


text \<open>
  C2, amended. Let the entry's url have a fetched record. If the entry's lastmod is at
  most the lastmod of every fetched record of that url (equality included), the entry
  is classified unchanged (flag 1): the loop body changes neither \<open>new_entries\<close> nor
  \<open>delete_ids\<close>, and the entry is not in \<open>to_index\<close>. If it is greater than the
  lastmod of every fetched record of that url, the entry is classified updated
  (flag 2): the loop body appends the entry to \<open>new_entries\<close> and the id of every
  fetched record of that url to \<open>delete_ids\<close>, so the entry is in \<open>to_index\<close> and
  all these ids are in \<open>to_delete\<close>. Both hold for every iteration order of the set.
\<close>

theorem existing_entry_is_compared_with_every_record:
  assumes "parse_rows fromisoformat metadata_list = Some pairs"
    and "r \<in> set metadata_list" and "m_source r = url entry"
  shows "((\<forall>r'\<in>set metadata_list. m_source r' = url entry \<longrightarrow>
             (\<exists>t. fromisoformat (m_lastmod r') = Some t \<and> lastmod entry \<le> t)) \<longrightarrow>
            vector_flag entry (db_entries set_order pairs) = 1
            \<and> reconcile_entry metadata_list (db_entries set_order pairs) (new_entries, delete_ids) entry
                = (new_entries, delete_ids)
            \<and> entry \<notin> set (fst (reconcile metadata_list (db_entries set_order pairs) entries)))
       \<and> ((\<forall>r'\<in>set metadata_list. m_source r' = url entry \<longrightarrow>
             (\<exists>t. fromisoformat (m_lastmod r') = Some t \<and> t < lastmod entry)) \<longrightarrow>
            vector_flag entry (db_entries set_order pairs) = 2
            \<and> reconcile_entry metadata_list (db_entries set_order pairs) (new_entries, delete_ids) entry
                = (new_entries @ [entry],
                   delete_ids @ map m_id (filter (\<lambda>m. m_source m = url entry) metadata_list))
            \<and> (entry \<in> set entries \<longrightarrow>
                 entry \<in> set (fst (reconcile metadata_list (db_entries set_order pairs) entries))
                 \<and> (\<forall>m\<in>set metadata_list. m_source m = url entry \<longrightarrow>
                       m_id m \<in> set (snd (reconcile metadata_list (db_entries set_order pairs) entries)))))"
proof -
  let ?dbs = "db_entries set_order pairs"
  note in_dbs = db_entries_of_url [OF assms(1), of "url entry" _ set_order]
  from parse_rows_all [OF assms(1,2)] obtain t0 where "fromisoformat (m_lastmod r) = Some t0"
    by blast
  with assms(2,3) have some: "(url entry, t0) \<in> set ?dbs"
    unfolding in_dbs by blast
  have unchanged: "vector_flag entry ?dbs = 1
      \<and> reconcile_entry metadata_list ?dbs (new_entries, delete_ids) entry = (new_entries, delete_ids)
      \<and> entry \<notin> set (fst (reconcile metadata_list ?dbs entries))"
    if le: "\<forall>r'\<in>set metadata_list. m_source r' = url entry \<longrightarrow>
             (\<exists>t. fromisoformat (m_lastmod r') = Some t \<and> lastmod entry \<le> t)"
  proof -
    have "\<forall>t'. (url entry, t') \<in> set ?dbs \<longrightarrow> lastmod entry \<le> t'"
      unfolding in_dbs using le by fastforce
    with some have f1: "vector_flag entry ?dbs = 1"
      by (rule vector_flag_all_le)
    then show ?thesis
      by (simp add: reconcile_entry_step reconcile_eq)
  qed
  have updated: "vector_flag entry ?dbs = 2
      \<and> reconcile_entry metadata_list ?dbs (new_entries, delete_ids) entry
          = (new_entries @ [entry],
             delete_ids @ map m_id (filter (\<lambda>m. m_source m = url entry) metadata_list))
      \<and> (entry \<in> set entries \<longrightarrow>
           entry \<in> set (fst (reconcile metadata_list ?dbs entries))
           \<and> (\<forall>m\<in>set metadata_list. m_source m = url entry \<longrightarrow>
                 m_id m \<in> set (snd (reconcile metadata_list ?dbs entries))))"
    if gt: "\<forall>r'\<in>set metadata_list. m_source r' = url entry \<longrightarrow>
             (\<exists>t. fromisoformat (m_lastmod r') = Some t \<and> t < lastmod entry)"
  proof -
    have "\<forall>t'. (url entry, t') \<in> set ?dbs \<longrightarrow> t' < lastmod entry"
      unfolding in_dbs using gt by fastforce
    with some have f2: "vector_flag entry ?dbs = 2"
      by (rule vector_flag_all_gt)
    have step: "reconcile_entry metadata_list ?dbs (new_entries, delete_ids) entry
          = (new_entries @ [entry],
             delete_ids @ map m_id (filter (\<lambda>m. m_source m = url entry) metadata_list))"
      using f2 by (simp add: reconcile_entry_step)
    have mem: "entry \<in> set (fst (reconcile metadata_list ?dbs entries))"
      if "entry \<in> set entries"
      using f2 that by (simp add: reconcile_eq)
    have ids: "m_id m \<in> set (snd (reconcile metadata_list ?dbs entries))"
      if "entry \<in> set entries" and "m \<in> set metadata_list" and "m_source m = url entry" for m
      using f2 that by (rule stale_ids_in_to_delete)
    from f2 step mem ids show ?thesis
      by blast
  qed
  from unchanged updated show ?thesis
    by blast
qed


theorem existing_entry_is_compared_with_every_record_witness:
  "vector_flag \<lparr>url = ''a'', lastmod = 19723\<rparr>
     (db_entries (\<lambda>p. 0) [(''a'', 19723), (''a'', 19754)]) = 1
   \<and> reconcile
         [\<lparr>m_id = ''x'', m_source = ''a'', m_lastmod = ''2024-01-01''\<rparr>,
          \<lparr>m_id = ''y'', m_source = ''a'', m_lastmod = ''2024-02-01''\<rparr>]
         (db_entries (\<lambda>p. 0) [(''a'', 19723), (''a'', 19754)])
         [\<lparr>url = ''a'', lastmod = 19723\<rparr>]
       = ([], [])
   \<and> vector_flag \<lparr>url = ''a'', lastmod = 19800\<rparr>
         (db_entries (\<lambda>p. 0) [(''a'', 19723), (''a'', 19754)]) = 2
   \<and> reconcile
         [\<lparr>m_id = ''x'', m_source = ''a'', m_lastmod = ''2024-01-01''\<rparr>,
          \<lparr>m_id = ''y'', m_source = ''a'', m_lastmod = ''2024-02-01''\<rparr>]
         (db_entries (\<lambda>p. 0) [(''a'', 19723), (''a'', 19754)])
         [\<lparr>url = ''a'', lastmod = 19800\<rparr>]
       = ([\<lparr>url = ''a'', lastmod = 19800\<rparr>], [''x'', ''y''])"
proof -
  let ?x = "\<lparr>m_id = ''x'', m_source = ''a'', m_lastmod = ''2024-01-01''\<rparr>"
  let ?y = "\<lparr>m_id = ''y'', m_source = ''a'', m_lastmod = ''2024-02-01''\<rparr>"
  let ?old = "\<lparr>url = ''a'', lastmod = 19723\<rparr>"
  let ?new = "\<lparr>url = ''a'', lastmod = 19800\<rparr>"
  let ?dbs = "db_entries (\<lambda>p. 0) [(''a'', 19723), (''a'', 19754)]"
  have parse: "parse_rows iso_days [?x, ?y] = Some [(''a'', 19723), (''a'', 19754)]"
    by (simp add: iso_days_def)
  have x: "?x \<in> set [?x, ?y]" by simp
  have src_old: "m_source ?x = url ?old" and src_new: "m_source ?x = url ?new"
    by simp_all
  have all_le: "\<forall>r'\<in>set [?x, ?y]. m_source r' = url ?old \<longrightarrow>
                  (\<exists>t. iso_days (m_lastmod r') = Some t \<and> lastmod ?old \<le> t)"
    by (simp add: iso_days_def)
  have all_gt: "\<forall>r'\<in>set [?x, ?y]. m_source r' = url ?new \<longrightarrow>
                  (\<exists>t. iso_days (m_lastmod r') = Some t \<and> t < lastmod ?new)"
    by (simp add: iso_days_def)
  note a = existing_entry_is_compared_with_every_record [OF parse x src_old,
      of "\<lambda>p. 0" "[]" "[]" "[?old]"]
  note b = existing_entry_is_compared_with_every_record [OF parse x src_new,
      of "\<lambda>p. 0" "[]" "[]" "[?new]"]
  from a all_le have 1: "vector_flag ?old ?dbs = 1"
    by (simp only:)
  from b all_gt have 2: "vector_flag ?new ?dbs = 2"
    by (simp only:)
  from 1 have 3: "reconcile [?x, ?y] ?dbs [?old] = ([], [])"
    by (simp add: reconcile_eq)
  from 2 have 4: "reconcile [?x, ?y] ?dbs [?new] = ([?new], [''x'', ''y''])"
    by (simp add: reconcile_eq)
  show ?thesis
    by (intro conjI; fact)
qed

section \<open>C10: the Slack message blocks\<close>

lemma append_results_eq:
  "append_results blocks results =
     blocks @ concat (map (\<lambda>result. [Section (result_text result), Divider]) results)"
  by (induction results arbitrary: blocks) simp_all

lemma length_concat_pairs:
  "length (concat (map (\<lambda>x. [f x, g x]) xs)) = 2 * length xs"
  by (induction xs) simp_all

text \<open>
  C10. The builder returns the header section and a divider, followed by one section and
  one divider for each of the first 20 results, in the order given; so the list has
  \<open>2 + 2 * min (length results) 20\<close> blocks, and the results after the twentieth leave
  no block.
\<close>

theorem build_slack_message_blocks_shape:
  "build_slack_message_blocks results =
     Section ''*Analysis Results:*'' # Divider #
     concat (map (\<lambda>result. [Section (result_text result), Divider]) (take 20 results))
   \<and> length (build_slack_message_blocks results) = 2 + 2 * min (length results) 20
   \<and> build_slack_message_blocks (results @ later) =
       build_slack_message_blocks (take 20 (results @ later))"
proof -
  have eq: "\<And>rs. build_slack_message_blocks rs =
     Section ''*Analysis Results:*'' # Divider #
     concat (map (\<lambda>result. [Section (result_text result), Divider]) (take 20 rs))"
    by (simp add: build_slack_message_blocks_def slice_to_def append_results_eq)
  have "length (build_slack_message_blocks results) = 2 + 2 * length (take 20 results)"
    unfolding eq by (simp only: list.size length_concat_pairs length_map)
  then have len: "length (build_slack_message_blocks results) = 2 + 2 * min (length results) 20"
    by (simp only: length_take)
  have "take 20 (take 20 (results @ later)) = take 20 (results @ later)"
    by (simp only: take_take) simp
  then have cut: "build_slack_message_blocks (results @ later) =
       build_slack_message_blocks (take 20 (results @ later))"
    unfolding eq by (simp only:)
  from eq [of results] len cut show ?thesis
    by blast
qed

section \<open>The batch loop\<close>

declare fifo_batches.simps [simp del]

lemma fifo_batches_Nil [simp]: "fifo_batches B [] = []"
  by (simp add: fifo_batches.simps)

lemma fifo_batches_step:
  "q \<noteq> [] \<Longrightarrow> 0 < B \<Longrightarrow> fifo_batches B q = take B q # fifo_batches B (drop B q)"
  by (subst fifo_batches.simps) simp

lemma concat_fifo_batches: "0 < B \<Longrightarrow> concat (fifo_batches B q) = q"
proof (induction B q rule: fifo_batches.induct)
  case (1 B q)
  show ?case
  proof (cases "q = []")
    case True
    then show ?thesis by simp
  next
    case False
    with 1 show ?thesis
      by (simp add: fifo_batches_step)
  qed
qed

lemma ceil_div_step:
  fixes n B :: nat
  assumes "0 < n" and "0 < B"
  shows "(n + B - 1) div B = Suc ((n - B + B - 1) div B)"
proof -
  have e: "n + B - 1 = (n - 1) + B"
    using assms by arith
  have "((n - 1) + B) div B = (n - 1) div B + 1"
    using assms by (intro div_add_self2) simp
  then have main: "(n + B - 1) div B = Suc ((n - 1) div B)"
    by (simp only: e Suc_eq_plus1)
  have "(n - B + B - 1) div B = (n - 1) div B"
  proof (cases "B \<le> n")
    case True
    then have "n - B + B - 1 = n - 1" by arith
    then show ?thesis by (simp only:)
  next
    case False
    then have "n - B + B - 1 < B" and "n - 1 < B"
      using assms by arith+
    then show ?thesis by simp
  qed
  with main show ?thesis by (simp only:)
qed

lemma length_fifo_batches:
  "0 < B \<Longrightarrow> length (fifo_batches B q) = (length q + B - 1) div B"
proof (induction B q rule: fifo_batches.induct)
  case (1 B q)
  show ?case
  proof (cases "q = []")
    case True
    with 1 show ?thesis by simp
  next
    case False
    with 1 have "length (fifo_batches B q) = Suc ((length q - B + B - 1) div B)"
      by (simp add: fifo_batches_step)
    also have "\<dots> = (length q + B - 1) div B"
      using False 1 ceil_div_step [of "length q" B] by simp
    finally show ?thesis .
  qed
qed

lemma nth_fifo_batches:
  "0 < B \<Longrightarrow> i < length (fifo_batches B q) \<Longrightarrow> fifo_batches B q ! i = take B (drop (i * B) q)"
proof (induction B q arbitrary: i rule: fifo_batches.induct)
  case (1 B q)
  show ?case
  proof (cases "q = []")
    case True
    with 1 show ?thesis by simp
  next
    case False
    show ?thesis
    proof (cases i)
      case 0
      with False 1 show ?thesis by (simp add: fifo_batches_step)
    next
      case (Suc j)
      with False 1 have "j < length (fifo_batches B (drop B q))"
        by (simp add: fifo_batches_step)
      with 1 False have "fifo_batches B (drop B q) ! j = take B (drop (j * B) (drop B q))"
        by simp
      with False 1 Suc show ?thesis
        by (simp add: fifo_batches_step add.commute)
    qed
  qed
qed

lemma slice_pos:
  "0 < n \<Longrightarrow> slice_to xs n = take (nat n) xs"
  "0 < n \<Longrightarrow> slice_from xs n = drop (nat n) xs"
  by (simp_all add: slice_to_def slice_from_def)

lemma create_documents_empty:
  assumes "sitemap_entries state = None \<or> sitemap_entries state = Some []"
  shows "create_documents load_split (Some c) state vsm =
           (Inr (state\<lparr>documents_count := 0\<rparr>), vsm, None)"
  using assms by (auto simp: create_documents_def)

lemma create_documents_commit:
  assumes "sitemap_entries state = Some q" and "q \<noteq> []"
    and "load_split (slice_to q (load_documents_batch_size c)) = Inr processed"
    and "online vsm"
  shows "create_documents load_split (Some c) state vsm =
           (Inr (state\<lparr>documents_count := documents_count state + length processed,
                       sitemap_entries := Some (slice_from q (load_documents_batch_size c))\<rparr>),
            vsm\<lparr>stored := stored vsm @ processed,
                total_count := total_count vsm + length processed\<rparr>,
            Some (slice_to q (load_documents_batch_size c)))"
proof -
  from assms(2) obtain e es where q: "q = e # es"
    by (cases q) auto
  show ?thesis
    using assms(1,3,4) unfolding q
    by (simp add: create_documents_def add_documents_def Let_def)
qed

lemma create_documents_InrD:
  assumes "create_documents load_split config state vsm = (Inr state', vsm', loaded)"
  shows "(\<exists>c. config = Some c) \<and>
         ((sitemap_entries state = None \<or> sitemap_entries state = Some [])
            \<and> state' = state\<lparr>documents_count := 0\<rparr> \<and> vsm' = vsm \<and> loaded = None
          \<or> (\<exists>c q processed. config = Some c \<and> sitemap_entries state = Some q \<and> q \<noteq> []
               \<and> online vsm
               \<and> load_split (slice_to q (load_documents_batch_size c)) = Inr processed
               \<and> state' = state\<lparr>documents_count := documents_count state + length processed,
                                sitemap_entries := Some (slice_from q (load_documents_batch_size c))\<rparr>
               \<and> vsm' = vsm\<lparr>stored := stored vsm @ processed,
                              total_count := total_count vsm + length processed\<rparr>
               \<and> loaded = Some (slice_to q (load_documents_batch_size c))))"
  using assms
  by (auto simp: create_documents_def add_documents_def Let_def
           split: option.splits list.splits sum.splits if_splits)

lemma check_next_batch_end_iff:
  "check_next_batch state = ''__end__'' \<longleftrightarrow>
     sitemap_entries state = None \<or> sitemap_entries state = Some []"
  by (simp add: check_next_batch_def split: option.splits list.splits)

lemma drop_shrinks:
  assumes "q \<noteq> []" and "0 < n" and "length q < Suc fuel"
  shows "length (drop n q) < fuel"
proof -
  from assms(1) have "0 < length q" by simp
  moreover have "length (drop n q) = length q - n" by simp
  ultimately show ?thesis
    using assms(2,3) by arith
qed

lemma batch_loop_terminates:
  assumes "0 < load_documents_batch_size c" and "sitemap_entries state = Some q"
    and "length q < fuel"
  shows "batch_loop fuel load_split (Some c) state vsm batches \<noteq> None"
  using assms(2,3)
proof (induction fuel arbitrary: state q vsm batches)
  case 0
  then show ?case by simp
next
  case (Suc fuel)
  obtain r vsm' loaded where cd: "create_documents load_split (Some c) state vsm = (r, vsm', loaded)"
    by (cases "create_documents load_split (Some c) state vsm") auto
  show ?case
  proof (cases r)
    case (Inl e)
    with cd show ?thesis by simp
  next
    case (Inr state')
    show ?thesis
    proof (cases "check_next_batch state' = ''__end__''")
      case True
      with cd Inr show ?thesis by (simp add: Let_def)
    next
      case False
      from create_documents_InrD [OF cd [unfolded Inr]] Suc.prems(1) False
      have q': "sitemap_entries state' = Some (slice_from q (load_documents_batch_size c))"
        and ne: "q \<noteq> []"
        by (auto simp: check_next_batch_end_iff)
      from assms(1) have "0 < nat (load_documents_batch_size c)" by simp
      with ne have "length (drop (nat (load_documents_batch_size c)) q) < fuel"
        using Suc.prems(2) by (rule drop_shrinks)
      with assms(1) have "length (slice_from q (load_documents_batch_size c)) < fuel"
        by (simp only: slice_pos)
      from Suc.IH [OF q' this]
      have "batch_loop fuel load_split (Some c) state' vsm'
              (batches @ (case loaded of None \<Rightarrow> [] | Some b \<Rightarrow> [b])) \<noteq> None" .
      with cd Inr False show ?thesis
        by (simp add: Let_def)
    qed
  qed
qed

lemma batch_loop_fuel_mono:
  "batch_loop fuel load_split config state vsm batches = Some r \<Longrightarrow>
     batch_loop (fuel + k) load_split config state vsm batches = Some r"
proof (induction fuel arbitrary: state vsm batches)
  case 0
  then show ?case by simp
next
  case (Suc fuel)
  obtain x vsm' loaded where cd: "create_documents load_split config state vsm = (x, vsm', loaded)"
    by (cases "create_documents load_split config state vsm") auto
  show ?case
  proof (cases x)
    case (Inl e)
    with cd Suc.prems show ?thesis by simp
  next
    case (Inr state')
    show ?thesis
    proof (cases "check_next_batch state' = ''__end__''")
      case True
      with cd Inr Suc.prems show ?thesis by (simp add: Let_def)
    next
      case False
      with cd Inr Suc.prems
      have "batch_loop fuel load_split config state' vsm'
              (batches @ (case loaded of None \<Rightarrow> [] | Some b \<Rightarrow> [b])) = Some r"
        by (simp add: Let_def)
      from Suc.IH [OF this] cd Inr False show ?thesis
        by (simp add: Let_def)
    qed
  qed
qed

lemma batch_loop_drains:
  assumes "load_documents_batch_size c = int B" and "0 < B"
    and "sitemap_entries state = Some q" and "q \<noteq> []" and "online vsm"
    and "length q < fuel"
  shows "batch_loop fuel (\<lambda>b. Inr (chunks b)) (Some c) state vsm batches =
           Some (Inr (state\<lparr>documents_count :=
                               documents_count state + length (concat (map chunks (fifo_batches B q))),
                             sitemap_entries := Some []\<rparr>),
                 vsm\<lparr>stored := stored vsm @ concat (map chunks (fifo_batches B q)),
                     total_count := total_count vsm + length (concat (map chunks (fifo_batches B q)))\<rparr>,
                 batches @ fifo_batches B q)"
  using assms(3-6)
proof (induction fuel arbitrary: state q vsm batches)
  case 0
  then show ?case by simp
next
  case (Suc fuel)
  let ?b = "take B q"
  let ?state' = "state\<lparr>documents_count := documents_count state + length (chunks ?b),
                       sitemap_entries := Some (drop B q)\<rparr>"
  let ?vsm' = "vsm\<lparr>stored := stored vsm @ chunks ?b,
                     total_count := total_count vsm + length (chunks ?b)\<rparr>"
  have sl: "slice_to q (load_documents_batch_size c) = ?b"
      "slice_from q (load_documents_batch_size c) = drop B q"
    using assms(1,2) by (simp_all add: slice_pos)
  have cd: "create_documents (\<lambda>b. Inr (chunks b)) (Some c) state vsm = (Inr ?state', ?vsm', Some ?b)"
    using create_documents_commit [of state q "\<lambda>b. Inr (chunks b)" c "chunks ?b" vsm]
      Suc.prems(1,2,3) by (simp add: sl)
  have fb: "fifo_batches B q = ?b # fifo_batches B (drop B q)"
    using Suc.prems(2) assms(2) by (rule fifo_batches_step)
  show ?case
  proof (cases "drop B q = []")
    case True
    then have "check_next_batch ?state' = ''__end__''"
      by (simp add: check_next_batch_end_iff)
    with cd True show ?thesis
      by (simp add: Let_def fb)
  next
    case False
    then have ne: "check_next_batch ?state' \<noteq> ''__end__''"
      by (simp add: check_next_batch_end_iff)
    from Suc.prems(2) assms(2) Suc.prems(4) have len: "length (drop B q) < fuel"
      by (rule drop_shrinks)
    have "batch_loop fuel (\<lambda>b. Inr (chunks b)) (Some c) ?state' ?vsm' (batches @ [?b]) =
           Some (Inr (?state'\<lparr>documents_count :=
                               documents_count ?state' + length (concat (map chunks (fifo_batches B (drop B q)))),
                             sitemap_entries := Some []\<rparr>),
                 ?vsm'\<lparr>stored := stored ?vsm' @ concat (map chunks (fifo_batches B (drop B q))),
                     total_count := total_count ?vsm' + length (concat (map chunks (fifo_batches B (drop B q))))\<rparr>,
                 (batches @ [?b]) @ fifo_batches B (drop B q))"
      using Suc.prems(3) by (intro Suc.IH [OF _ False _ len]) simp_all
    with cd ne show ?thesis
      by (simp add: Let_def fb)
  qed
qed

section \<open>C7: the batch loop terminates\<close>

text \<open>
  C7. With a positive batch size and a queue \<open>q\<close>, the cycle of \<open>create_documents\<close>
  and \<open>check_next_batch\<close> ends: every run with more than \<open>length q\<close> calls of fuel
  returns, and all of them return the same result (whatever the loader and the store
  do). A call of \<open>create_documents\<close> that succeeds on a non-empty queue leaves the
  queue without its first \<open>batch_size\<close> entries, which is strictly shorter; and
  \<open>check_next_batch\<close> names the end exactly when the queue is empty, and
  \<open>create_documents\<close> otherwise.
\<close>

theorem batch_loop_terminates_for_positive_batch_size:
  assumes "0 < load_documents_batch_size c" and "sitemap_entries state = Some q"
  shows "(\<exists>r. \<forall>fuel. length q < fuel \<longrightarrow>
              batch_loop fuel load_split (Some c) state vsm batches = Some r)
       \<and> (q \<noteq> [] \<and> create_documents load_split (Some c) state vsm = (Inr state', vsm', loaded) \<longrightarrow>
              sitemap_entries state' = Some (drop (nat (load_documents_batch_size c)) q)
              \<and> length (drop (nat (load_documents_batch_size c)) q) < length q)
       \<and> (check_next_batch state = ''__end__'' \<longleftrightarrow> q = [])
       \<and> (q \<noteq> [] \<longrightarrow> check_next_batch state = ''create_documents'')"
proof (intro conjI)
  from batch_loop_terminates [OF assms, of "Suc (length q)" load_split vsm batches]
  obtain r where r: "batch_loop (Suc (length q)) load_split (Some c) state vsm batches = Some r"
    by auto
  have "batch_loop fuel load_split (Some c) state vsm batches = Some r" if "length q < fuel" for fuel
  proof -
    from that have "fuel = Suc (length q) + (fuel - Suc (length q))" by simp
    with batch_loop_fuel_mono [OF r, of "fuel - Suc (length q)"] show ?thesis
      by simp
  qed
  then show "\<exists>r. \<forall>fuel. length q < fuel \<longrightarrow>
              batch_loop fuel load_split (Some c) state vsm batches = Some r"
    by blast
next
  show "q \<noteq> [] \<and> create_documents load_split (Some c) state vsm = (Inr state', vsm', loaded) \<longrightarrow>
              sitemap_entries state' = Some (drop (nat (load_documents_batch_size c)) q)
              \<and> length (drop (nat (load_documents_batch_size c)) q) < length q"
  proof
    assume h: "q \<noteq> [] \<and> create_documents load_split (Some c) state vsm = (Inr state', vsm', loaded)"
    then have cd: "create_documents load_split (Some c) state vsm = (Inr state', vsm', loaded)"
      and ne: "q \<noteq> []" by simp_all
    from create_documents_InrD [OF cd] assms(2) ne
    have "sitemap_entries state' = Some (slice_from q (load_documents_batch_size c))"
      by auto
    with assms(1) have 1: "sitemap_entries state' = Some (drop (nat (load_documents_batch_size c)) q)"
      by (simp only: slice_pos)
    from assms(1) have "0 < nat (load_documents_batch_size c)" by simp
    with ne have "length (drop (nat (load_documents_batch_size c)) q) < length q"
      by (rule drop_shrinks) simp
    with 1 show "sitemap_entries state' = Some (drop (nat (load_documents_batch_size c)) q)
              \<and> length (drop (nat (load_documents_batch_size c)) q) < length q"
      by (rule conjI)
  qed
next
  show "check_next_batch state = ''__end__'' \<longleftrightarrow> q = []"
    using assms(2) by (simp add: check_next_batch_end_iff)
next
  show "q \<noteq> [] \<longrightarrow> check_next_batch state = ''create_documents''"
    using assms(2) by (cases q) (simp_all add: check_next_batch_def)
qed


theorem batch_loop_terminates_for_positive_batch_size_witness:
  "(\<exists>r. batch_loop 4 (\<lambda>b. Inr (map (\<lambda>e. chunk (url e) (url e) ''2024-01-01'') b))
           (Some \<lparr>index_name = ''default'', load_documents_batch_size = 2\<rparr>)
           \<lparr>sitemap_entries = Some [\<lparr>url = ''a'', lastmod = 1\<rparr>, \<lparr>url = ''b'', lastmod = 2\<rparr>,
                                   \<lparr>url = ''c'', lastmod = 3\<rparr>], documents_count = 0\<rparr>
           \<lparr>stored = [], total_count = 0, online = True\<rparr> [] = Some r
       \<and> batch_loop 9 (\<lambda>b. Inr (map (\<lambda>e. chunk (url e) (url e) ''2024-01-01'') b))
           (Some \<lparr>index_name = ''default'', load_documents_batch_size = 2\<rparr>)
           \<lparr>sitemap_entries = Some [\<lparr>url = ''a'', lastmod = 1\<rparr>, \<lparr>url = ''b'', lastmod = 2\<rparr>,
                                   \<lparr>url = ''c'', lastmod = 3\<rparr>], documents_count = 0\<rparr>
           \<lparr>stored = [], total_count = 0, online = True\<rparr> [] = Some r)
   \<and> check_next_batch
         \<lparr>sitemap_entries = Some [\<lparr>url = ''a'', lastmod = 1\<rparr>, \<lparr>url = ''b'', lastmod = 2\<rparr>,
                                 \<lparr>url = ''c'', lastmod = 3\<rparr>], documents_count = 0\<rparr>
       = ''create_documents''"
proof -
  let ?c = "\<lparr>index_name = ''default'', load_documents_batch_size = 2\<rparr>"
  let ?q = "[\<lparr>url = ''a'', lastmod = 1\<rparr>, \<lparr>url = ''b'', lastmod = 2\<rparr>, \<lparr>url = ''c'', lastmod = 3\<rparr>]"
  let ?state = "\<lparr>sitemap_entries = Some ?q, documents_count = 0\<rparr>"
  have pos: "0 < load_documents_batch_size ?c" by simp
  have st: "sitemap_entries ?state = Some ?q" by simp
  note t = batch_loop_terminates_for_positive_batch_size [OF pos st,
      of "\<lambda>b. Inr (map (\<lambda>e. chunk (url e) (url e) ''2024-01-01'') b)" "\<lparr>stored = [], total_count = 0, online = True\<rparr>" "[]"]
  from t obtain r where
    r: "\<forall>fuel. length ?q < fuel \<longrightarrow>
          batch_loop fuel (\<lambda>b. Inr (map (\<lambda>e. chunk (url e) (url e) ''2024-01-01'') b)) (Some ?c) ?state
            \<lparr>stored = [], total_count = 0, online = True\<rparr> [] = Some r"
    by blast
  have "length ?q < 4" and "length ?q < 9" by simp_all
  with r have runs: "batch_loop 4 (\<lambda>b. Inr (map (\<lambda>e. chunk (url e) (url e) ''2024-01-01'') b)) (Some ?c) ?state
            \<lparr>stored = [], total_count = 0, online = True\<rparr> [] = Some r
       \<and> batch_loop 9 (\<lambda>b. Inr (map (\<lambda>e. chunk (url e) (url e) ''2024-01-01'') b)) (Some ?c) ?state
            \<lparr>stored = [], total_count = 0, online = True\<rparr> [] = Some r"
    by blast
  have "?q \<noteq> []" by simp
  with t have "check_next_batch ?state = ''create_documents''"
    by blast
  with runs show ?thesis
    by blast
qed


section \<open>C5: the batches of the loop\<close>

text \<open>
  C5. With batch size \<open>B \<ge> 1\<close>, a queue \<open>q\<close> of \<open>N\<close> entries, a loader that gives
  the chunks \<open>chunks b\<close> of every batch \<open>b\<close> and a reachable store, the loop returns
  (given more than \<open>N\<close> calls of fuel) after handing to the loader exactly the batches
  \<open>fifo_batches B q\<close>: there are \<open>(N + B - 1) div B\<close> of them, the \<open>i\<close>-th is
  \<open>take B (drop (i * B) q)\<close>, and together they are \<open>q\<close> in its order. The queue ends
  empty, the store holds the chunks of the batches appended in order, and both counters
  have grown by the number of these chunks (for an empty queue the only call returns
  \<open>documents_count = 0\<close>). A single successful call that handed a batch \<open>b\<close> to the
  loader has added the loader's chunks of \<open>b\<close> to the store and their number to
  \<open>documents_count\<close> and \<open>total_count\<close>.
\<close>

theorem batch_loop_processes_fifo_batches:
  assumes "load_documents_batch_size c = int B" and "0 < B"
    and "sitemap_entries state = Some q" and "online vsm" and "length q < fuel"
  shows "(\<exists>state' vsm' batches.
            batch_loop fuel (\<lambda>b. Inr (chunks b)) (Some c) state vsm [] = Some (Inr state', vsm', batches)
          \<and> batches = fifo_batches B q
          \<and> length batches = (length q + B - 1) div B
          \<and> (\<forall>i<length batches. batches ! i = take B (drop (i * B) q))
          \<and> concat batches = q
          \<and> sitemap_entries state' = Some []
          \<and> stored vsm' = stored vsm @ concat (map chunks batches)
          \<and> total_count vsm' = total_count vsm + length (concat (map chunks batches))
          \<and> documents_count state' =
              (if q = [] then 0 else documents_count state + length (concat (map chunks batches))))
       \<and> (create_documents load_split (Some c) state1 vsm1 = (Inr state2, vsm2, Some b) \<longrightarrow>
            (\<exists>processed. load_split b = Inr processed
               \<and> stored vsm2 = stored vsm1 @ processed
               \<and> total_count vsm2 = total_count vsm1 + length processed
               \<and> documents_count state2 = documents_count state1 + length processed))"
proof (rule conjI)
  let ?fb = "fifo_batches B q"
  have shape: "length ?fb = (length q + B - 1) div B"
      "\<forall>i<length ?fb. ?fb ! i = take B (drop (i * B) q)" "concat ?fb = q"
    using assms(2) by (simp_all add: length_fifo_batches nth_fifo_batches concat_fifo_batches)
  show "\<exists>state' vsm' batches.
            batch_loop fuel (\<lambda>b. Inr (chunks b)) (Some c) state vsm [] = Some (Inr state', vsm', batches)
          \<and> batches = fifo_batches B q
          \<and> length batches = (length q + B - 1) div B
          \<and> (\<forall>i<length batches. batches ! i = take B (drop (i * B) q))
          \<and> concat batches = q
          \<and> sitemap_entries state' = Some []
          \<and> stored vsm' = stored vsm @ concat (map chunks batches)
          \<and> total_count vsm' = total_count vsm + length (concat (map chunks batches))
          \<and> documents_count state' =
              (if q = [] then 0 else documents_count state + length (concat (map chunks batches)))"
  proof (cases "q = []")
    case True
    from assms(5) obtain n where fuel: "fuel = Suc n"
      by (cases fuel) auto
    have cd: "create_documents (\<lambda>b. Inr (chunks b)) (Some c) state vsm
                = (Inr (state\<lparr>documents_count := 0\<rparr>), vsm, None)"
      using assms(3) True by (intro create_documents_empty) simp
    have "check_next_batch (state\<lparr>documents_count := 0\<rparr>) = ''__end__''"
      using assms(3) True by (simp add: check_next_batch_end_iff)
    with cd have "batch_loop fuel (\<lambda>b. Inr (chunks b)) (Some c) state vsm []
                    = Some (Inr (state\<lparr>documents_count := 0\<rparr>), vsm, [])"
      unfolding fuel by (simp add: Let_def)
    moreover from shape(1) True have "(length q + B - 1) div B = 0"
      by simp
    ultimately show ?thesis
      using True assms(3) by simp
  next
    case False
    from batch_loop_drains [OF assms(1,2,3) False assms(4,5), of chunks "[]"] shape False
    show ?thesis
      by simp
  qed
next
  show "create_documents load_split (Some c) state1 vsm1 = (Inr state2, vsm2, Some b) \<longrightarrow>
            (\<exists>processed. load_split b = Inr processed
               \<and> stored vsm2 = stored vsm1 @ processed
               \<and> total_count vsm2 = total_count vsm1 + length processed
               \<and> documents_count state2 = documents_count state1 + length processed)"
  proof
    assume "create_documents load_split (Some c) state1 vsm1 = (Inr state2, vsm2, Some b)"
    from create_documents_InrD [OF this]
    show "\<exists>processed. load_split b = Inr processed
               \<and> stored vsm2 = stored vsm1 @ processed
               \<and> total_count vsm2 = total_count vsm1 + length processed
               \<and> documents_count state2 = documents_count state1 + length processed"
      by auto
  qed
qed

theorem batch_loop_processes_fifo_batches_witness:
  "\<exists>state' vsm'.
     batch_loop 4 (\<lambda>b. Inr (map (\<lambda>e. chunk (url e) (url e) ''2024-01-01'') b))
       (Some \<lparr>index_name = ''default'', load_documents_batch_size = 2\<rparr>)
       \<lparr>sitemap_entries = Some [\<lparr>url = ''a'', lastmod = 1\<rparr>, \<lparr>url = ''b'', lastmod = 2\<rparr>,
                               \<lparr>url = ''c'', lastmod = 3\<rparr>], documents_count = 0\<rparr>
       \<lparr>stored = [], total_count = 0, online = True\<rparr> []
     = Some (Inr state', vsm',
             [[\<lparr>url = ''a'', lastmod = 1\<rparr>, \<lparr>url = ''b'', lastmod = 2\<rparr>], [\<lparr>url = ''c'', lastmod = 3\<rparr>]])
     \<and> sitemap_entries state' = Some []
     \<and> documents_count state' = 3
     \<and> total_count vsm' = 3
     \<and> stored vsm' = [chunk ''a'' ''a'' ''2024-01-01'', chunk ''b'' ''b'' ''2024-01-01'',
                       chunk ''c'' ''c'' ''2024-01-01'']"
proof -
  let ?c = "\<lparr>index_name = ''default'', load_documents_batch_size = 2\<rparr>"
  let ?q = "[\<lparr>url = ''a'', lastmod = 1\<rparr>, \<lparr>url = ''b'', lastmod = 2\<rparr>, \<lparr>url = ''c'', lastmod = 3\<rparr>]"
  let ?state = "\<lparr>sitemap_entries = Some ?q, documents_count = 0\<rparr>"
  let ?vsm = "\<lparr>stored = [], total_count = 0, online = True\<rparr>"
  let ?chunks = "map (\<lambda>e. chunk (url e) (url e) ''2024-01-01'')"
  have size: "load_documents_batch_size ?c = int 2" by simp
  have pos: "0 < (2::nat)" by simp
  have st: "sitemap_entries ?state = Some ?q" by simp
  have on: "online ?vsm" by simp
  have fuel: "length ?q < 4" by simp
  have fb: "fifo_batches 2 ?q = [[\<lparr>url = ''a'', lastmod = 1\<rparr>, \<lparr>url = ''b'', lastmod = 2\<rparr>], [\<lparr>url = ''c'', lastmod = 3\<rparr>]]"
    by (simp add: fifo_batches.simps)
  from batch_loop_processes_fifo_batches [OF size pos st on fuel, of ?chunks]
  obtain state' vsm' batches where
    run: "batch_loop 4 (\<lambda>b. Inr (?chunks b)) (Some ?c) ?state ?vsm [] = Some (Inr state', vsm', batches)"
    and b: "batches = fifo_batches 2 ?q"
    and q: "sitemap_entries state' = Some []"
    and s: "stored vsm' = stored ?vsm @ concat (map ?chunks batches)"
    and t: "total_count vsm' = total_count ?vsm + length (concat (map ?chunks batches))"
    and d: "documents_count state' =
              (if ?q = [] then 0 else documents_count ?state + length (concat (map ?chunks batches)))"
    by blast
  from b fb have batches: "batches = [[\<lparr>url = ''a'', lastmod = 1\<rparr>, \<lparr>url = ''b'', lastmod = 2\<rparr>], [\<lparr>url = ''c'', lastmod = 3\<rparr>]]"
    by (simp only:)
  from d have d': "documents_count state' = 3"
    unfolding batches by simp
  from t have t': "total_count vsm' = 3"
    unfolding batches by simp
  from s have s': "stored vsm' = [chunk ''a'' ''a'' ''2024-01-01'', chunk ''b'' ''b'' ''2024-01-01'',
                       chunk ''c'' ''c'' ''2024-01-01'']"
    unfolding batches by simp
  from run [unfolded batches] q d' t' s' show ?thesis
    by (intro exI conjI)
qed

section \<open>C6: failures of the reconciliation node\<close>




section \<open>C8: duplicate urls in the sitemap\<close>

lemma reconcile_append:
  "reconcile ms dbs (xs @ ys) =
     (fst (reconcile ms dbs xs) @ fst (reconcile ms dbs ys),
      snd (reconcile ms dbs xs) @ snd (reconcile ms dbs ys))"
  by (simp add: reconcile_eq)

lemma distinct_map_filter_url:
  "distinct (map url es) \<Longrightarrow> distinct (map url (filter P es))"
  by (rule distinct_map_filter)

text \<open>
  C8, as stated, fails: the loop does not look for earlier occurrences of a url. On an
  empty index the sitemap with two entries of the url \<open>a\<close> gives both entries in
  \<open>to_index\<close>, in order, where the sitemap with the last occurrence alone gives one;
  the node returns both.
\<close>

theorem duplicate_urls_are_kept_counterexample:
  "url \<lparr>url = ''a'', lastmod = 19723\<rparr> = url \<lparr>url = ''a'', lastmod = 19754\<rparr>
   \<and> reconcile [] (db_entries (\<lambda>p. 0) [])
         [\<lparr>url = ''a'', lastmod = 19723\<rparr>, \<lparr>url = ''a'', lastmod = 19754\<rparr>]
       = ([\<lparr>url = ''a'', lastmod = 19723\<rparr>, \<lparr>url = ''a'', lastmod = 19754\<rparr>], [])
   \<and> reconcile [] (db_entries (\<lambda>p. 0) []) [\<lparr>url = ''a'', lastmod = 19754\<rparr>]
       = ([\<lparr>url = ''a'', lastmod = 19754\<rparr>], [])
   \<and> reconcile [] (db_entries (\<lambda>p. 0) [])
         [\<lparr>url = ''a'', lastmod = 19723\<rparr>, \<lparr>url = ''a'', lastmod = 19754\<rparr>]
       \<noteq> reconcile [] (db_entries (\<lambda>p. 0) []) [\<lparr>url = ''a'', lastmod = 19754\<rparr>]
   \<and> filter_sitemap_entries iso_days (\<lambda>p. 0)
         (Some \<lparr>index_name = ''default'', load_documents_batch_size = 2\<rparr>)
         \<lparr>sitemap_entries = Some [\<lparr>url = ''a'', lastmod = 19723\<rparr>, \<lparr>url = ''a'', lastmod = 19754\<rparr>],
          documents_count = 0\<rparr>
         \<lparr>stored = [], total_count = 0, online = True\<rparr>
       = (Inr \<lparr>sitemap_entries = Some [\<lparr>url = ''a'', lastmod = 19723\<rparr>, \<lparr>url = ''a'', lastmod = 19754\<rparr>],
               documents_count = 0\<rparr>,
          \<lparr>stored = [], total_count = 0, online = True\<rparr>)"
proof -
  let ?e1 = "\<lparr>url = ''a'', lastmod = 19723\<rparr>"
  let ?e2 = "\<lparr>url = ''a'', lastmod = 19754\<rparr>"
  have both: "reconcile [] (db_entries (\<lambda>p. 0) []) [?e1, ?e2] = ([?e1, ?e2], [])"
    by (simp add: reconcile_eq db_entries_def)
  have last: "reconcile [] (db_entries (\<lambda>p. 0) []) [?e2] = ([?e2], [])"
    by (simp add: reconcile_eq db_entries_def)
  have differ: "reconcile [] (db_entries (\<lambda>p. 0) []) [?e1, ?e2]
                  \<noteq> reconcile [] (db_entries (\<lambda>p. 0) []) [?e2]"
    unfolding both last by simp
  have fetch: "fetch_metadata \<lparr>stored = [], total_count = 0, online = True\<rparr> = Inr []"
    by (simp add: fetch_metadata_def similarity_search_def)
  have parse: "parse_rows iso_days [] = Some []"
    by simp
  have node: "filter_sitemap_entries iso_days (\<lambda>p. 0)
         (Some \<lparr>index_name = ''default'', load_documents_batch_size = 2\<rparr>)
         \<lparr>sitemap_entries = Some [?e1, ?e2], documents_count = 0\<rparr>
         \<lparr>stored = [], total_count = 0, online = True\<rparr>
       = (Inr \<lparr>sitemap_entries = Some [?e1, ?e2], documents_count = 0\<rparr>,
          \<lparr>stored = [], total_count = 0, online = True\<rparr>)"
    using filter_sitemap_entries_Inr [OF _ fetch parse both,
        of "\<lparr>sitemap_entries = Some [?e1, ?e2], documents_count = 0\<rparr>"]
    by simp
  have "url ?e1 = url ?e2" by simp
  with both last differ node show ?thesis
    by (intro conjI)
qed

text \<open>
  C8, amended. Reconciliation does not deduplicate the sitemap: every occurrence of a
  url is classified on its own against the same fetched records, \<open>to_index\<close> holds
  the occurrences not classified unchanged, in sitemap order, and the output for a
  sitemap cut in two is the output of the first part followed by that of the second.
  When the urls of the sitemap are unique, no url is appended to \<open>to_index\<close> more
  than once.
\<close>

theorem reconcile_keeps_every_occurrence:
  "fst (reconcile metadata_list dbs entries) = filter (\<lambda>e. vector_flag e dbs \<noteq> 1) entries
   \<and> reconcile metadata_list dbs (entries @ later) =
       (fst (reconcile metadata_list dbs entries) @ fst (reconcile metadata_list dbs later),
        snd (reconcile metadata_list dbs entries) @ snd (reconcile metadata_list dbs later))
   \<and> (distinct (map url entries) \<longrightarrow>
        distinct (map url (fst (reconcile metadata_list dbs entries))))"
proof (intro conjI impI)
  show "fst (reconcile metadata_list dbs entries) = filter (\<lambda>e. vector_flag e dbs \<noteq> 1) entries"
    by (simp add: reconcile_eq)
  show "reconcile metadata_list dbs (entries @ later) =
       (fst (reconcile metadata_list dbs entries) @ fst (reconcile metadata_list dbs later),
        snd (reconcile metadata_list dbs entries) @ snd (reconcile metadata_list dbs later))"
    by (rule reconcile_append)
  show "distinct (map url (fst (reconcile metadata_list dbs entries)))"
    if "distinct (map url entries)"
    using that by (simp add: reconcile_eq distinct_map_filter)
qed

theorem reconcile_keeps_every_occurrence_witness:
  "distinct (map url (fst (reconcile [] (db_entries (\<lambda>p. 0) [])
      [\<lparr>url = ''a'', lastmod = 19723\<rparr>, \<lparr>url = ''b'', lastmod = 19754\<rparr>])))"
proof -
  have "distinct (map url [\<lparr>url = ''a'', lastmod = 19723\<rparr>, \<lparr>url = ''b'', lastmod = 19754\<rparr>])"
    by simp
  then show ?thesis
    by (rule reconcile_keeps_every_occurrence [THEN conjunct2, THEN conjunct2, rule_format])
qed

section \<open>C9: what reconciliation deletes\<close>

lemma to_delete_origin:
  assumes "i \<in> set (snd (reconcile ms dbs es))"
  shows "\<exists>m\<in>set ms. \<exists>e\<in>set es. m_id m = i \<and> m_source m = url e \<and> vector_flag e dbs = 2"
proof -
  from assms obtain e where e: "e \<in> set es"
    and i: "i \<in> set (if vector_flag e dbs = 2
                        then map m_id (filter (\<lambda>m. m_source m = url e) ms) else [])"
    by (auto simp: reconcile_eq)
  from i have f: "vector_flag e dbs = 2"
    by (cases "vector_flag e dbs = 2") simp_all
  with i obtain m where "m \<in> set ms" and "m_source m = url e" and "m_id m = i"
    by auto
  with e f show ?thesis
    by blast
qed

lemma distinct_ids_same_doc:
  assumes "distinct (map doc_id docs)" and "d \<in> set docs" and "d' \<in> set docs"
    and "doc_id d = doc_id d'"
  shows "d = d'"
  using assms by (meson distinct_map inj_on_def)


text \<open>
  C9. When the node succeeds, the store it leaves is the store it found without the
  documents whose id is in \<open>to_delete\<close>. Every id in \<open>to_delete\<close> is the id of a
  stored document whose source is the url of a sitemap entry classified updated
  (flag 2). With the ids of the store unique (they are its keys), every stored document
  whose source is the url of no sitemap entry is still in the store, and these documents
  are left as they were, in their order.
\<close>

theorem reconciliation_deletes_only_updated_urls:
  assumes "filter_sitemap_entries fromisoformat set_order config state vsm = (Inr state', vsm')"
    and "sitemap_entries state = Some entries"
  shows "\<exists>metadata_list pairs.
           fetch_metadata vsm = Inr metadata_list
         \<and> parse_rows fromisoformat metadata_list = Some pairs
         \<and> stored vsm' =
             filter (\<lambda>d. doc_id d \<notin> set (snd (reconcile metadata_list (db_entries set_order pairs) entries)))
               (stored vsm)
         \<and> (\<forall>i\<in>set (snd (reconcile metadata_list (db_entries set_order pairs) entries)).
               \<exists>d\<in>set (stored vsm). \<exists>e\<in>set entries.
                 doc_id d = i \<and> metadata d ''source'' = Some (url e)
                 \<and> vector_flag e (db_entries set_order pairs) = 2)
         \<and> (distinct (map doc_id (stored vsm)) \<longrightarrow>
               (\<forall>d\<in>set (stored vsm).
                  (\<forall>e\<in>set entries. metadata d ''source'' \<noteq> Some (url e)) \<longrightarrow> d \<in> set (stored vsm'))
               \<and> filter (\<lambda>d. \<forall>e\<in>set entries. metadata d ''source'' \<noteq> Some (url e)) (stored vsm')
                   = filter (\<lambda>d. \<forall>e\<in>set entries. metadata d ''source'' \<noteq> Some (url e)) (stored vsm))"
proof -
  from filter_sitemap_entries_InrD [OF assms(1)] assms(2)
  obtain ms pairs where fetch: "fetch_metadata vsm = Inr ms"
    and parse: "parse_rows fromisoformat ms = Some pairs"
    and del: "delete_by_ids vsm (snd (reconcile ms (db_entries set_order pairs) entries)) = Inr vsm'"
    by auto
  let ?dbs = "db_entries set_order pairs"
  let ?to_delete = "snd (reconcile ms ?dbs entries)"
  let ?outside = "\<lambda>d. \<forall>e\<in>set entries. metadata d ''source'' \<noteq> Some (url e)"
  from del have st: "stored vsm' = filter (\<lambda>d. doc_id d \<notin> set ?to_delete) (stored vsm)"
    by (auto simp: delete_by_ids_def split: if_splits)
  have origin: "\<exists>d\<in>set (stored vsm). \<exists>e\<in>set entries.
                 doc_id d = i \<and> metadata d ''source'' = Some (url e) \<and> vector_flag e ?dbs = 2"
    if "i \<in> set ?to_delete" for i
  proof -
    from to_delete_origin [OF that] obtain m e where m: "m \<in> set ms" and e: "e \<in> set entries"
      and mi: "m_id m = i" and ms: "m_source m = url e" and f: "vector_flag e ?dbs = 2"
      by blast
    from fetch_metadata_row_doc [OF fetch m] obtain d where d: "d \<in> set (stored vsm)"
      and dm: "metadata_of d = Inr m"
      by blast
    from dm mi ms have "doc_id d = i" and "metadata d ''source'' = Some (url e)"
      by (simp_all add: metadata_of_Inr_iff)
    with d e f show ?thesis
      by blast
  qed
  have kept: "doc_id d \<notin> set ?to_delete"
    if dist: "distinct (map doc_id (stored vsm))" and d: "d \<in> set (stored vsm)" and out: "?outside d" for d
  proof
    assume "doc_id d \<in> set ?to_delete"
    from origin [OF this] obtain d' e where d': "d' \<in> set (stored vsm)" and e: "e \<in> set entries"
      and same: "doc_id d' = doc_id d" and src: "metadata d' ''source'' = Some (url e)"
      by blast
    from distinct_ids_same_doc [OF dist d' d same] have "d' = d" .
    with src e out show False
      by blast
  qed
  have frame: "(\<forall>d\<in>set (stored vsm). ?outside d \<longrightarrow> d \<in> set (stored vsm'))
               \<and> filter ?outside (stored vsm') = filter ?outside (stored vsm)"
    if dist: "distinct (map doc_id (stored vsm))"
  proof
    show "\<forall>d\<in>set (stored vsm). ?outside d \<longrightarrow> d \<in> set (stored vsm')"
      using kept [OF dist] by (simp add: st)
    have "filter ?outside (stored vsm') =
            filter (\<lambda>d. doc_id d \<notin> set ?to_delete \<and> ?outside d) (stored vsm)"
      by (simp add: st conj_commute)
    also have "\<dots> = filter ?outside (stored vsm)"
      using kept [OF dist] by (intro filter_cong) auto
    finally show "filter ?outside (stored vsm') = filter ?outside (stored vsm)" .
  qed
  from fetch parse st origin frame show ?thesis
    by blast
qed


theorem reconciliation_deletes_only_updated_urls_witness:
  "filter_sitemap_entries iso_days (\<lambda>p. 0)
     (Some \<lparr>index_name = ''default'', load_documents_batch_size = 2\<rparr>)
     \<lparr>sitemap_entries = Some [\<lparr>url = ''a'', lastmod = 19754\<rparr>], documents_count = 0\<rparr>
     \<lparr>stored = [chunk ''x'' ''a'' ''2024-01-01'', chunk ''z'' ''c'' ''2024-01-01''],
      total_count = 2, online = True\<rparr>
   = (Inr \<lparr>sitemap_entries = Some [\<lparr>url = ''a'', lastmod = 19754\<rparr>], documents_count = 0\<rparr>,
      \<lparr>stored = [chunk ''z'' ''c'' ''2024-01-01''], total_count = 2, online = True\<rparr>)
   \<and> filter (\<lambda>d. \<forall>e\<in>set [\<lparr>url = ''a'', lastmod = 19754\<rparr>]. metadata d ''source'' \<noteq> Some (url e))
         (stored \<lparr>stored = [chunk ''z'' ''c'' ''2024-01-01''], total_count = 2, online = True\<rparr>)
     = filter (\<lambda>d. \<forall>e\<in>set [\<lparr>url = ''a'', lastmod = 19754\<rparr>]. metadata d ''source'' \<noteq> Some (url e))
         (stored \<lparr>stored = [chunk ''x'' ''a'' ''2024-01-01'', chunk ''z'' ''c'' ''2024-01-01''],
                  total_count = 2, online = True\<rparr>)"
proof -
  let ?x = "\<lparr>m_id = ''x'', m_source = ''a'', m_lastmod = ''2024-01-01''\<rparr>"
  let ?z = "\<lparr>m_id = ''z'', m_source = ''c'', m_lastmod = ''2024-01-01''\<rparr>"
  let ?e = "\<lparr>url = ''a'', lastmod = 19754\<rparr>"
  let ?state = "\<lparr>sitemap_entries = Some [?e], documents_count = 0\<rparr>"
  let ?vsm = "\<lparr>stored = [chunk ''x'' ''a'' ''2024-01-01'', chunk ''z'' ''c'' ''2024-01-01''],
      total_count = 2, online = True\<rparr>"
  let ?vsm' = "\<lparr>stored = [chunk ''z'' ''c'' ''2024-01-01''], total_count = 2, online = True\<rparr>"
  have fetch: "fetch_metadata ?vsm = Inr [?x, ?z]"
    by (simp add: fetch_metadata_def similarity_search_def metadata_of_def chunk_def)
  have parse: "parse_rows iso_days [?x, ?z] = Some [(''a'', 19723), (''c'', 19723)]"
    by (simp add: iso_days_def)
  have rec: "reconcile [?x, ?z] (db_entries (\<lambda>p. 0) [(''a'', 19723), (''c'', 19723)]) [?e]
               = ([?e], [''x''])"
    by (simp add: reconcile_eq db_entries_def)
  have node: "filter_sitemap_entries iso_days (\<lambda>p. 0)
     (Some \<lparr>index_name = ''default'', load_documents_batch_size = 2\<rparr>) ?state ?vsm
     = (Inr ?state, ?vsm')"
    using filter_sitemap_entries_Inr [OF _ fetch parse rec, of ?state]
    by (simp add: chunk_def)
  have st: "sitemap_entries ?state = Some [?e]" by simp
  have dist: "distinct (map doc_id (stored ?vsm))"
    by (simp add: chunk_def)
  from reconciliation_deletes_only_updated_urls [OF node st]
  have "distinct (map doc_id (stored ?vsm)) \<longrightarrow>
          (\<forall>d\<in>set (stored ?vsm).
              (\<forall>e\<in>set [?e]. metadata d ''source'' \<noteq> Some (url e)) \<longrightarrow> d \<in> set (stored ?vsm'))
          \<and> filter (\<lambda>d. \<forall>e\<in>set [?e]. metadata d ''source'' \<noteq> Some (url e)) (stored ?vsm')
              = filter (\<lambda>d. \<forall>e\<in>set [?e]. metadata d ''source'' \<noteq> Some (url e)) (stored ?vsm)"
    by (elim exE conjE)
  with dist have keep: "filter (\<lambda>d. \<forall>e\<in>set [?e]. metadata d ''source'' \<noteq> Some (url e)) (stored ?vsm')
              = filter (\<lambda>d. \<forall>e\<in>set [?e]. metadata d ''source'' \<noteq> Some (url e)) (stored ?vsm)"
    by (elim impE conjE)
  from node keep show ?thesis
    by (rule conjI)
qed

section \<open>C3: the store after reconciliation\<close>








section \<open>Two runs of the graph\<close>



















section \<open>C4: a second run after a full run\<close>





end
